theory Spec2Isabelle
  imports Complex_Main
begin

section \<open>Numbers\<close>

text \<open>
  A JavaScript number is an IEEE 754 double. A finite double is modelled by its rational
  value (\<open>+0\<close> and \<open>-0\<close>, which \<open>===\<close>, \<open>Math.max\<close> and \<open>+ 1\<close> do not tell apart, are
  both \<open>Fin 0\<close>); the other numbers are the two infinities and \<open>NaN\<close>. The result of an
  addition is the exact sum rounded to the nearest double, ties to the even significand.
\<close>

text \<open>\<open>pow2 e\<close> is \<open>2\<close> to the power \<open>e\<close>, for an integer \<open>e\<close>.\<close>

definition pow2 :: "int \<Rightarrow> rat" where
  "pow2 e = (if 0 \<le> e then 2 ^ nat e else 1 / 2 ^ nat (- e))"

text \<open>
  \<open>ilog2 x\<close> is the binary exponent of a positive \<open>x\<close>: the \<open>e\<close> with
  \<open>2^e \<le> x < 2^(e+1)\<close>, found by halving or doubling \<open>x\<close> into \<open>[1, 2)\<close>.
\<close>

function ilog2 :: "rat \<Rightarrow> int" where
  "ilog2 x = (if x \<le> 0 then 0
              else if 2 \<le> x then ilog2 (x / 2) + 1
              else if x < 1 then ilog2 (x * 2) - 1
              else 0)"
  by pat_completeness auto
termination
proof (relation "measure (\<lambda>x. if 1 \<le> x then nat \<lfloor>x\<rfloor> else nat \<lceil>1 / x\<rceil>)")
  show "wf (measure (\<lambda>x::rat. if 1 \<le> x then nat \<lfloor>x\<rfloor> else nat \<lceil>1 / x\<rceil>))"
    by simp
next
  fix x :: rat
  assume "\<not> x \<le> 0" "2 \<le> x"
  then have "\<lfloor>x / 2\<rfloor> < \<lfloor>x\<rfloor>" and "0 < \<lfloor>x\<rfloor>"
    by linarith+
  then show "(x / 2, x) \<in> measure (\<lambda>x. if 1 \<le> x then nat \<lfloor>x\<rfloor> else nat \<lceil>1 / x\<rceil>)"
    using \<open>2 \<le> x\<close> by auto
next
  fix x :: rat
  assume pos: "\<not> x \<le> 0" and "\<not> 2 \<le> x" and lt: "x < 1"
  have y: "1 < 1 / x" using pos lt by simp
  then have c2: "2 \<le> \<lceil>1 / x\<rceil>" by linarith
  show "(x * 2, x) \<in> measure (\<lambda>x. if 1 \<le> x then nat \<lfloor>x\<rfloor> else nat \<lceil>1 / x\<rceil>)"
  proof (cases "1 \<le> x * 2")
    case True
    then have "\<lfloor>x * 2\<rfloor> = 1" using lt by linarith
    with True lt c2 show ?thesis by auto
  next
    case False
    have "1 / (x * 2) = (1 / x) / 2" by simp
    then have "\<lceil>1 / (x * 2)\<rceil> < \<lceil>1 / x\<rceil>"
      using c2 by linarith
    with False lt c2 pos show ?thesis by auto
  qed
qed

text \<open>Rounding a non-negative rational to the nearest integer, a tie to the even one.\<close>

definition round_even :: "rat \<Rightarrow> int" where
  "round_even m =
     (let f = \<lfloor>m\<rfloor>; d = m - of_int f
      in if d < 1 / 2 then f
         else if 1 / 2 < d then f + 1
         else if even f then f else f + 1)"

datatype jsnum = Fin rat | PosInf | NegInf | NaN

text \<open>
  \<open>round64 x\<close> is the double nearest to \<open>x\<close>. The doubles around \<open>x\<close> are the multiples of
  the quantum \<open>2^(e - 52)\<close>, where \<open>e\<close> is the exponent of \<open>x\<close>, and not below \<open>-1022\<close>
  (the subnormal range). A result of magnitude \<open>2^1024\<close> or more overflows to an infinity.
\<close>

definition round64 :: "rat \<Rightarrow> jsnum" where
  "round64 x =
     (if x = 0 then Fin 0
      else let q = pow2 (max (ilog2 \<bar>x\<bar>) (- 1022) - 52);
               r = of_int (round_even (\<bar>x\<bar> / q)) * q
           in if pow2 1024 \<le> r then (if 0 < x then PosInf else NegInf)
              else Fin (if 0 < x then r else - r))"

section \<open>The values held by the entity store\<close>

text \<open>
  The data layer is generic over records of type \<open>{ [key: string]: any }\<close>. The entities of
  the repository are flat records whose fields hold numbers, strings, \<open>null\<close> and (for an
  absent field) \<open>undefined\<close>.
\<close>

datatype jsval = VUndefined | VNull | VBool bool | VNum jsnum | VStr string

text \<open>An object maps property names to values; the spread \<open>{...a, ...b}\<close> is \<open>a ++ b\<close>.\<close>

type_synonym obj = "string \<rightharpoonup> jsval"

text \<open>\<open>item[key]\<close>: reading a property that is not there gives \<open>undefined\<close>.\<close>

definition getProp :: "obj \<Rightarrow> string \<Rightarrow> jsval" where
  "getProp item k = (case item k of None \<Rightarrow> VUndefined | Some v \<Rightarrow> v)"

text \<open>\<open>a === b\<close>: same type and same value, and \<open>NaN\<close> equal to nothing, itself included.\<close>

definition strict_eq :: "jsval \<Rightarrow> jsval \<Rightarrow> bool" where
  "strict_eq a b = (a = b \<and> a \<noteq> VNum NaN)"

text \<open>
  \<open>Number(v)\<close>. The conversion of a string (ECMAScript's StringToNumber) is the
  parameter \<open>s2n\<close>: nothing below depends on which conversion it is.
\<close>

fun Number_js :: "(string \<Rightarrow> jsnum) \<Rightarrow> jsval \<Rightarrow> jsnum" where
  "Number_js s2n VUndefined = NaN"
| "Number_js s2n VNull = Fin 0"
| "Number_js s2n (VBool b) = Fin (if b then 1 else 0)"
| "Number_js s2n (VNum n) = n"
| "Number_js s2n (VStr s) = s2n s"

text \<open>The larger of two numbers, as \<open>Math.max\<close> compares them: \<open>NaN\<close> wins over everything.\<close>

fun max2 :: "jsnum \<Rightarrow> jsnum \<Rightarrow> jsnum" where
  "max2 NaN _ = NaN"
| "max2 _ NaN = NaN"
| "max2 PosInf _ = PosInf"
| "max2 _ PosInf = PosInf"
| "max2 NegInf b = b"
| "max2 a NegInf = a"
| "max2 (Fin a) (Fin b) = Fin (max a b)"

text \<open>
  \<open>Math.max(...ns)\<close>: \<open>NaN\<close> as soon as one argument is \<open>NaN\<close>, the largest argument
  otherwise, and \<open>-Infinity\<close> for no argument.
\<close>

definition Math_max :: "jsnum list \<Rightarrow> jsnum" where
  "Math_max ns = foldr max2 ns NegInf"

text \<open>\<open>a + b\<close> on numbers.\<close>

fun num_add :: "jsnum \<Rightarrow> jsnum \<Rightarrow> jsnum" where
  "num_add NaN _ = NaN"
| "num_add _ NaN = NaN"
| "num_add PosInf NegInf = NaN"
| "num_add NegInf PosInf = NaN"
| "num_add PosInf _ = PosInf"
| "num_add _ PosInf = PosInf"
| "num_add NegInf _ = NegInf"
| "num_add _ NegInf = NegInf"
| "num_add (Fin a) (Fin b) = round64 (a + b)"

text \<open>\<open>Array.prototype.findIndex\<close>, with \<open>None\<close> for the result \<open>-1\<close>.\<close>

fun findIndex :: "('a \<Rightarrow> bool) \<Rightarrow> 'a list \<Rightarrow> nat option" where
  "findIndex P [] = None"
| "findIndex P (x # xs) = (if P x then Some 0 else map_option Suc (findIndex P xs))"

section \<open>The generic CRUD service\<close>

text \<open>
  \<open>generateCrudService(items, primaryKey)\<close> closes over a mutable array. Each operation
  is modelled as a function of the current array that returns the array afterwards together
  with the value the promise resolves to. The artificial delay precedes every read of the
  array and has no effect on the result, so it is left out.
\<close>

definition getAll :: "obj list \<Rightarrow> obj list" where
  "getAll items = items"

definition getById :: "obj list \<Rightarrow> string \<Rightarrow> jsval \<Rightarrow> obj option" where
  "getById items primaryKey ident =
     List.find (\<lambda>item. strict_eq (getProp item primaryKey) ident) items"

definition create :: "(string \<Rightarrow> jsnum) \<Rightarrow> obj list \<Rightarrow> string \<Rightarrow> obj \<Rightarrow> obj list \<times> obj" where
  "create s2n items primaryKey item =
     (let maxId = (if length items > 0
                   then Math_max (map (\<lambda>i. Number_js s2n (getProp i primaryKey)) items)
                   else Fin 0);
          newId = num_add maxId (Fin 1);
          newItem = item(primaryKey \<mapsto> VNum newId)
      in (items @ [newItem], newItem))"

definition update :: "obj list \<Rightarrow> string \<Rightarrow> jsval \<Rightarrow> obj \<Rightarrow> obj list \<times> obj option" where
  "update items primaryKey ident updates =
     (case findIndex (\<lambda>item. strict_eq (getProp item primaryKey) ident) items of
        None \<Rightarrow> (items, None)
      | Some index \<Rightarrow>
          (let items' = items[index := (items ! index) ++ updates]
           in (items', Some (items' ! index))))"

definition delete :: "obj list \<Rightarrow> string \<Rightarrow> jsval \<Rightarrow> obj list \<times> bool" where
  "delete items primaryKey ident =
     (let initialLength = length items;
          filtered = filter (\<lambda>item. \<not> strict_eq (getProp item primaryKey) ident) items
      in if length filtered = initialLength then (items, False) else (filtered, True))"

section \<open>The entity store and the relationship queries\<close>

text \<open>
  The module keeps one array per entity; the relationship queries read these arrays
  directly. The store gathers the arrays the module declares. A query's parameter is
  declared a number; the model lets it be any value, which covers the declared ones.
\<close>

record store =
  businesses :: "obj list"
  products :: "obj list"
  customers :: "obj list"
  offers :: "obj list"
  transactions :: "obj list"
  redemptions :: "obj list"
  loyalties :: "obj list"
  tierSystems :: "obj list"
  customerTiers :: "obj list"
  referralPrograms :: "obj list"
  feedbacks :: "obj list"
  promotions :: "obj list"
  fraudDetections :: "obj list"
  analytics :: "obj list"

definition getBusinessOffers :: "store \<Rightarrow> jsval \<Rightarrow> obj list" where
  "getBusinessOffers st businessId =
     filter (\<lambda>offer. strict_eq (getProp offer ''B_ID'') businessId) (offers st)"

definition getBusinessFeedback :: "store \<Rightarrow> jsval \<Rightarrow> obj list" where
  "getBusinessFeedback st businessId =
     filter (\<lambda>feedback. strict_eq (getProp feedback ''B_ID'') businessId) (feedbacks st)"

definition getBusinessAnalytics :: "store \<Rightarrow> jsval \<Rightarrow> obj list" where
  "getBusinessAnalytics st businessId =
     filter (\<lambda>analytic. strict_eq (getProp analytic ''B_ID'') businessId) (analytics st)"

definition getCustomerTransactions :: "store \<Rightarrow> jsval \<Rightarrow> obj list" where
  "getCustomerTransactions st customerId =
     filter (\<lambda>transaction. strict_eq (getProp transaction ''C_ID'') customerId) (transactions st)"

definition getCustomerTier :: "store \<Rightarrow> jsval \<Rightarrow> obj option" where
  "getCustomerTier st customerId =
     List.find (\<lambda>tier. strict_eq (getProp tier ''C_ID'') customerId) (customerTiers st)"

definition getCustomerReferrals :: "store \<Rightarrow> jsval \<Rightarrow> obj list" where
  "getCustomerReferrals st customerId =
     filter (\<lambda>referral. strict_eq (getProp referral ''Referred_C_id'') customerId)
       (referralPrograms st)"

definition getCustomerFeedback :: "store \<Rightarrow> jsval \<Rightarrow> obj list" where
  "getCustomerFeedback st customerId =
     filter (\<lambda>feedback. strict_eq (getProp feedback ''C_ID'') customerId) (feedbacks st)"

definition getCustomerFraudDetections :: "store \<Rightarrow> jsval \<Rightarrow> obj list" where
  "getCustomerFraudDetections st customerId =
     filter (\<lambda>fraud. strict_eq (getProp fraud ''C_ID'') customerId) (fraudDetections st)"

definition getTransactionRedemptions :: "store \<Rightarrow> jsval \<Rightarrow> obj list" where
  "getTransactionRedemptions st transactionId =
     filter (\<lambda>redemption. strict_eq (getProp redemption ''T_ID'') transactionId) (redemptions st)"

section \<open>Vocabulary of the specification\<close>

text \<open>
  A numeric value: a finite number. A sequence has numeric primary keys when every record
  holds such a value under the primary-key field.
\<close>

fun numeric :: "jsval \<Rightarrow> bool" where
  "numeric (VNum (Fin q)) = True"
| "numeric _ = False"

definition numeric_keys :: "string \<Rightarrow> obj list \<Rightarrow> bool" where
  "numeric_keys primaryKey items = list_all (\<lambda>r. numeric (getProp r primaryKey)) items"

text \<open>
  A safe integer (\<open>Number.isSafeInteger\<close>): an integer of magnitude below \<open>2^53\<close>. Up to
  there every integer is a double, so that adding \<open>1\<close> is exact.
\<close>

fun safe_integer :: "jsval \<Rightarrow> bool" where
  "safe_integer (VNum (Fin q)) = (of_int \<lfloor>q\<rfloor> = q \<and> \<bar>q\<bar> < 2 ^ 53)"
| "safe_integer _ = False"

definition safe_keys :: "string \<Rightarrow> obj list \<Rightarrow> bool" where
  "safe_keys primaryKey items = list_all (\<lambda>r. safe_integer (getProp r primaryKey)) items"

text \<open>The numeric ids present in a sequence.\<close>

primrec ids :: "string \<Rightarrow> obj list \<Rightarrow> rat set" where
  "ids primaryKey [] = {}"
| "ids primaryKey (r # rs) =
     (case getProp r primaryKey of
        VNum (Fin q) \<Rightarrow> insert q (ids primaryKey rs)
      | _ \<Rightarrow> ids primaryKey rs)"

text \<open>
  The specification's \<open>max(existing ids) + 1\<close>, or \<open>1\<close> for the empty sequence, with the
  sum taken as the program takes it, in the arithmetic of doubles.
\<close>

definition next_id :: "string \<Rightarrow> obj list \<Rightarrow> jsnum" where
  "next_id primaryKey items =
     num_add (Fin (if items = [] then 0 else Max (ids primaryKey items))) (Fin 1)"

text \<open>
  Pairwise distinct primary keys: no two records of the sequence carry keys that the
  service's own comparison (\<open>===\<close>) identifies.
\<close>

fun distinct_keys :: "string \<Rightarrow> obj list \<Rightarrow> bool" where
  "distinct_keys primaryKey [] = True"
| "distinct_keys primaryKey (r # rs) =
     (list_all (\<lambda>s. \<not> strict_eq (getProp r primaryKey) (getProp s primaryKey)) rs
      \<and> distinct_keys primaryKey rs)"

text \<open>
  The records of a sequence whose field \<open>fk\<close> equals the parent id, in the order of the
  sequence: the wording of the specification for a relationship query.
\<close>

primrec related :: "string \<Rightarrow> jsval \<Rightarrow> obj list \<Rightarrow> obj list" where
  "related fk parent [] = []"
| "related fk parent (r # rs) =
     (if strict_eq (getProp r fk) parent then r # related fk parent rs else related fk parent rs)"

text \<open>The result of a query that yields one record or nothing, read as a sequence.\<close>

definition records_of :: "obj option \<Rightarrow> obj list" where
  "records_of res = (case res of None \<Rightarrow> [] | Some r \<Rightarrow> [r])"

section \<open>Auxiliary facts\<close>

declare ids.simps(2) [simp del]

declare ilog2.simps [simp del]

lemma floor_rat_divide_numeral [simp]:
  "\<lfloor>numeral a / numeral b :: rat\<rfloor> = numeral a div numeral b"
  by (metis floor_divide_of_int_eq of_int_numeral)

lemma floor_rat_one_divide_numeral [simp]:
  "\<lfloor>1 / numeral b :: rat\<rfloor> = 1 div numeral b"
  by (metis floor_divide_of_int_eq of_int_1 of_int_numeral)

lemma pow2_pos: "0 < pow2 e"
  by (simp add: pow2_def)

lemma pow2_Suc: "pow2 (k + 1) = 2 * pow2 k"
proof (cases "0 \<le> k")
  case True
  then have "nat (k + 1) = Suc (nat k)" by simp
  with True show ?thesis by (simp add: pow2_def)
next
  case False
  then have "nat (- k) = Suc (nat (- (k + 1)))" by simp
  with False show ?thesis by (simp add: pow2_def)
qed

lemma pow2_mono: "i \<le> j \<Longrightarrow> pow2 i \<le> pow2 j"
proof -
  have "pow2 i \<le> pow2 (i + int n)" for n
  proof (induction n)
    case 0
    then show ?case by simp
  next
    case (Suc n)
    have "i + int (Suc n) = (i + int n) + 1"
      by simp
    then have "pow2 (i + int (Suc n)) = 2 * pow2 (i + int n)"
      by (simp only: pow2_Suc)
    with Suc pow2_pos [of "i + int n"] show ?case by linarith
  qed
  from this [of "nat (j - i)"] show "i \<le> j \<Longrightarrow> pow2 i \<le> pow2 j"
    by simp
qed

lemma ilog2_bounds:
  "0 < x \<Longrightarrow> pow2 (ilog2 x) \<le> x \<and> x < pow2 (ilog2 x + 1)"
proof (induction x rule: ilog2.induct)
  case (1 x)
  show ?case
  proof (cases "2 \<le> x")
    case True
    then have e: "ilog2 x = ilog2 (x / 2) + 1"
      using "1.prems" by (subst ilog2.simps) simp
    have ih: "pow2 (ilog2 (x / 2)) \<le> x / 2 \<and> x / 2 < pow2 (ilog2 (x / 2) + 1)"
      using "1.IH"(1) "1.prems" True by simp
    show ?thesis
      using ih unfolding e pow2_Suc by simp
  next
    case ge: False
    show ?thesis
    proof (cases "x < 1")
      case True
      then have e: "ilog2 x = ilog2 (x * 2) - 1"
        using "1.prems" ge by (subst ilog2.simps) simp
      have ih: "pow2 (ilog2 (x * 2)) \<le> x * 2 \<and> x * 2 < pow2 (ilog2 (x * 2) + 1)"
        using "1.IH"(2) "1.prems" ge True by simp
      let ?k = "ilog2 (x * 2)"
      have a: "pow2 ?k = 2 * pow2 (?k - 1)"
        using pow2_Suc [of "?k - 1"] by simp
      have b: "pow2 (?k + 1) = 2 * pow2 ?k"
        by (rule pow2_Suc)
      have "pow2 (?k - 1) \<le> x" "x < pow2 ?k"
        using ih a b by linarith+
      then show ?thesis
        unfolding e by simp
    next
      case False
      then have "ilog2 x = 0"
        using "1.prems" ge by (subst ilog2.simps) simp
      with False ge show ?thesis
        by (simp add: pow2_def)
    qed
  qed
qed

lemma round_even_of_int: "round_even (of_int j) = j"
  by (simp add: round_even_def)

text \<open>Every integer of magnitude up to \<open>2^53\<close> is a double: rounding leaves it as it is.\<close>

lemma round64_of_int:
  assumes "\<bar>k\<bar> \<le> 2 ^ 53"
  shows "round64 (of_int k) = Fin (of_int k)"
proof (cases "k = 0")
  case True
  then show ?thesis by (simp add: round64_def)
next
  case False
  define x :: rat where "x = \<bar>of_int k\<bar>"
  have x_int: "x = of_int \<bar>k\<bar>" by (simp add: x_def)
  have x1: "1 \<le> x"
    using False unfolding x_int of_int_1_le_iff by linarith
  have x53: "x \<le> 2 ^ 53" using assms unfolding x_int
    by (metis of_int_le_iff of_int_numeral of_int_power)
  define e where "e = ilog2 x"
  have b: "pow2 e \<le> x" "x < pow2 (e + 1)"
    using ilog2_bounds [of x] x1 by (simp_all add: e_def)
  have e0: "0 \<le> e"
  proof (rule ccontr)
    assume "\<not> 0 \<le> e"
    then have "pow2 (e + 1) \<le> pow2 0" by (intro pow2_mono) simp
    with b x1 show False by (simp add: pow2_def)
  qed
  have e53: "e \<le> 53"
  proof (rule ccontr)
    assume "\<not> e \<le> 53"
    then have "pow2 54 \<le> pow2 e" by (intro pow2_mono) simp
    with b x53 show False by (simp add: pow2_def)
  qed
  have r: "of_int (round_even (x / pow2 (e - 52))) * pow2 (e - 52) = x"
  proof (cases "e \<le> 52")
    case True
    then have q: "pow2 (e - 52) = 1 / 2 ^ nat (52 - e)"
      by (cases "e = 52") (simp_all add: pow2_def)
    have "x / pow2 (e - 52) = of_int (\<bar>k\<bar> * 2 ^ nat (52 - e))"
      by (simp add: q x_int)
    then have "round_even (x / pow2 (e - 52)) = \<bar>k\<bar> * 2 ^ nat (52 - e)"
      by (simp only: round_even_of_int)
    then show ?thesis
      by (simp add: q x_int)
  next
    case False
    with e53 have e: "e = 53" by simp
    with b x53 have x: "x = 2 ^ 53" by (simp add: pow2_def)
    have "x / pow2 (e - 52) = of_int (2 ^ 52)"
      by (simp add: e x pow2_def)
    then have "round_even (x / pow2 (e - 52)) = 2 ^ 52"
      by (simp only: round_even_of_int)
    then show ?thesis
      by (simp add: e x pow2_def)
  qed
  have small: "\<not> pow2 1024 \<le> x"
  proof -
    have "pow2 54 \<le> pow2 1024" by (intro pow2_mono) simp
    moreover have "x < pow2 54" using x53 by (simp add: pow2_def)
    ultimately show ?thesis by simp
  qed
  have mx: "max e (- 1022) = e" using e0 by simp
  have "round64 (of_int k) = Fin (if 0 < (of_int k :: rat) then x else - x)"
    using False small r by (simp add: round64_def Let_def x_def [symmetric] e_def [symmetric] mx)
  also have "(if 0 < (of_int k :: rat) then x else - x) = of_int k"
    by (simp add: x_def)
  finally show ?thesis .
qed

lemma round64_succ_safe:
  assumes "of_int \<lfloor>q\<rfloor> = q" and "\<bar>q\<bar> < 2 ^ 53"
  shows "round64 (q + 1) = Fin (q + 1)"
proof -
  have "(of_int \<bar>\<lfloor>q\<rfloor>\<bar> :: rat) = \<bar>q\<bar>"
    by (simp only: of_int_abs assms(1))
  moreover have "(of_int (2 ^ 53) :: rat) = 2 ^ 53"
    by simp
  ultimately have "(of_int \<bar>\<lfloor>q\<rfloor>\<bar> :: rat) < of_int (2 ^ 53)"
    using assms(2) by (simp only:)
  then have "\<bar>\<lfloor>q\<rfloor>\<bar> < 2 ^ 53"
    by (simp only: of_int_less_iff)
  then have "\<bar>\<lfloor>q\<rfloor> + 1\<bar> \<le> 2 ^ 53"
    by linarith
  then have "round64 (of_int (\<lfloor>q\<rfloor> + 1)) = Fin (of_int (\<lfloor>q\<rfloor> + 1))"
    by (rule round64_of_int)
  moreover have "(of_int (\<lfloor>q\<rfloor> + 1) :: rat) = q + 1"
    by (simp only: of_int_add of_int_1 assms(1))
  ultimately show ?thesis
    by (simp only:)
qed

lemma numeric_iff: "numeric v \<longleftrightarrow> (\<exists>n. v = VNum (Fin n))"
  by (cases v rule: numeric.cases) auto

lemma safe_integer_iff:
  "safe_integer v \<longleftrightarrow> (\<exists>q. v = VNum (Fin q) \<and> of_int \<lfloor>q\<rfloor> = q \<and> \<bar>q\<bar> < 2 ^ 53)"
  by (cases v rule: safe_integer.cases) auto

lemma safe_keys_iff:
  "safe_keys pk items \<longleftrightarrow>
     (\<forall>r \<in> set items. \<exists>q. getProp r pk = VNum (Fin q) \<and> of_int \<lfloor>q\<rfloor> = q \<and> \<bar>q\<bar> < 2 ^ 53)"
  by (simp add: safe_keys_def list_all_iff safe_integer_iff)

lemma numeric_keys_iff:
  "numeric_keys pk items \<longleftrightarrow> (\<forall>r \<in> set items. \<exists>n. getProp r pk = VNum (Fin n))"
  by (simp add: numeric_keys_def list_all_iff numeric_iff)

lemma ids_eq: "ids pk items = {n. \<exists>r \<in> set items. getProp r pk = VNum (Fin n)}"
  by (induction items) (auto simp: ids.simps(2) split: jsval.splits jsnum.splits)

lemma strict_eq_sym: "strict_eq a b = strict_eq b a"
  by (auto simp: strict_eq_def)

lemma strict_eq_NaN [simp]: "\<not> strict_eq a (VNum NaN)" "\<not> strict_eq (VNum NaN) a"
  by (auto simp: strict_eq_def)

lemma getProp_map_add:
  "getProp (m ++ u) k = (case u k of None \<Rightarrow> getProp m k | Some v \<Rightarrow> v)"
  by (simp add: getProp_def map_add_def split: option.splits)

lemma findIndex_None: "findIndex P xs = None \<longleftrightarrow> (\<forall>x \<in> set xs. \<not> P x)"
  by (induction xs) auto

lemma findIndex_Some:
  "findIndex P xs = Some i \<Longrightarrow> i < length xs \<and> P (xs ! i) \<and> (\<forall>j < i. \<not> P (xs ! j))"
proof (induction xs arbitrary: i)
  case Nil
  then show ?case by simp
next
  case (Cons x xs)
  show ?case
  proof (cases "P x")
    case True
    with Cons.prems show ?thesis by simp
  next
    case False
    with Cons.prems obtain k where k: "findIndex P xs = Some k" and i: "i = Suc k"
      by auto
    from Cons.IH [OF k] False show ?thesis
      by (auto simp: i less_Suc_eq_0_disj)
  qed
qed

lemma findIndex_exists:
  "\<exists>x \<in> set xs. P x \<Longrightarrow> \<exists>i. findIndex P xs = Some i"
  using findIndex_None [of P xs] by (cases "findIndex P xs") auto

lemma finite_ids: "finite (ids pk items)"
proof -
  have "ids pk items \<subseteq> (\<lambda>r. case getProp r pk of VNum (Fin n) \<Rightarrow> n | _ \<Rightarrow> 0) ` set items"
    by (force simp: ids_eq image_iff)
  then show ?thesis
    by (rule finite_subset) simp
qed

lemma ids_Cons_num: "getProp r pk = VNum (Fin n) \<Longrightarrow> ids pk (r # rs) = insert n (ids pk rs)"
  by (auto simp: ids_eq)

lemma ids_snoc_num: "getProp r pk = VNum (Fin n) \<Longrightarrow> ids pk (rs @ [r]) = insert n (ids pk rs)"
  by (auto simp: ids_eq)

lemma ids_empty_iff: "numeric_keys pk items \<Longrightarrow> ids pk items = {} \<longleftrightarrow> items = []"
  by (cases items) (auto simp: ids_eq numeric_keys_iff)

lemma safe_keys_numeric: "safe_keys pk items \<Longrightarrow> numeric_keys pk items"
  unfolding safe_keys_iff numeric_keys_iff by blast

lemma Math_max_numeric:
  assumes "items \<noteq> []" and "numeric_keys pk items"
  shows "Math_max (map (\<lambda>i. Number_js s2n (getProp i pk)) items) = Fin (Max (ids pk items))"
  using assms
proof (induction items rule: list_nonempty_induct)
  case (single r)
  then obtain n where "getProp r pk = VNum (Fin n)"
    by (auto simp: numeric_keys_iff)
  then show ?case
    by (simp add: ids_eq Math_max_def)
next
  case (cons r rs)
  from cons.prems obtain n where n: "getProp r pk = VNum (Fin n)" and rs: "numeric_keys pk rs"
    by (auto simp: numeric_keys_iff)
  have ne: "ids pk rs \<noteq> {}"
    using cons.hyps rs by (cases rs) (auto simp: numeric_keys_iff ids_eq)
  have split: "ids pk (r # rs) = insert n (ids pk rs)"
    using n by (auto simp: ids_eq)
  have "Math_max (map (\<lambda>i. Number_js s2n (getProp i pk)) (r # rs)) =
        max2 (Fin n) (Math_max (map (\<lambda>i. Number_js s2n (getProp i pk)) rs))"
    using n by (simp add: Math_max_def)
  also have "\<dots> = Fin (max n (Max (ids pk rs)))"
    using cons.IH [OF rs] by simp
  also have "max n (Max (ids pk rs)) = Max (ids pk (r # rs))"
    using ne finite_ids [of pk rs] unfolding split by simp
  finally show ?case .
qed

lemma Max_ids_safe:
  assumes "safe_keys pk items" and "items \<noteq> []"
  shows "of_int \<lfloor>Max (ids pk items)\<rfloor> = Max (ids pk items) \<and> \<bar>Max (ids pk items)\<bar> < 2 ^ 53"
proof -
  have "ids pk items \<noteq> {}"
    using assms ids_empty_iff [OF safe_keys_numeric [OF assms(1)]] by simp
  then have "Max (ids pk items) \<in> ids pk items"
    using finite_ids [of pk items] by (rule_tac Max_in)
  then obtain r where "r \<in> set items" "getProp r pk = VNum (Fin (Max (ids pk items)))"
    by (auto simp: ids_eq)
  with assms(1) show ?thesis
    unfolding safe_keys_iff by fastforce
qed

lemma ids_le_Max: "r \<in> set items \<Longrightarrow> getProp r pk = VNum (Fin q) \<Longrightarrow> q \<le> Max (ids pk items)"
  using finite_ids [of pk items] by (intro Max_ge) (auto simp: ids_eq)

lemma next_id_safe:
  assumes "safe_keys pk items"
  shows "next_id pk items = Fin (if items = [] then 1 else Max (ids pk items) + 1)"
proof (cases "items = []")
  case True
  then show ?thesis
    using round64_of_int [of 1] by (simp add: next_id_def)
next
  case False
  from Max_ids_safe [OF assms False] show ?thesis
    using False by (simp add: next_id_def round64_succ_safe)
qed

lemma create_eq:
  assumes "numeric_keys pk items"
  shows "create s2n items pk item =
           (items @ [item(pk \<mapsto> VNum (next_id pk items))], item(pk \<mapsto> VNum (next_id pk items)))"
proof (cases "items = []")
  case True
  then show ?thesis
    by (simp add: create_def Let_def next_id_def)
next
  case False
  then show ?thesis
    using Math_max_numeric [OF False assms, of s2n] by (simp add: create_def Let_def next_id_def)
qed

lemma create_appends: "fst (create s2n items pk item) = items @ [snd (create s2n items pk item)]"
  by (simp add: create_def Let_def)

lemma create_key_value:
  assumes "safe_keys pk items"
  shows "getProp (snd (create s2n items pk item)) pk =
           VNum (Fin (if items = [] then 1 else Max (ids pk items) + 1))"
  using create_eq [OF safe_keys_numeric [OF assms], of s2n item] next_id_safe [OF assms]
  by (simp add: getProp_def)

lemma create_key_fresh:
  assumes "safe_keys pk items"
  shows "\<forall>r \<in> set items. \<not> strict_eq (getProp r pk) (getProp (snd (create s2n items pk item)) pk)"
proof
  fix r assume r: "r \<in> set items"
  then have ne: "items \<noteq> []" by auto
  from r assms obtain q where q: "getProp r pk = VNum (Fin q)"
    unfolding safe_keys_iff by blast
  have "q \<le> Max (ids pk items)"
    using r q by (rule ids_le_Max)
  then show "\<not> strict_eq (getProp r pk) (getProp (snd (create s2n items pk item)) pk)"
    using ne by (simp add: create_key_value [OF assms] q strict_eq_def)
qed

lemma create_key_is_max:
  assumes "safe_keys pk items"
  shows "\<exists>m. getProp (snd (create s2n items pk item)) pk = VNum (Fin m) \<and>
             m = Max (ids pk (fst (create s2n items pk item)))"
proof -
  let ?m = "if items = [] then 1 else Max (ids pk items) + 1"
  have key: "getProp (snd (create s2n items pk item)) pk = VNum (Fin ?m)"
    by (rule create_key_value [OF assms])
  have ids_eq: "ids pk (fst (create s2n items pk item)) = insert ?m (ids pk items)"
    unfolding create_appends by (rule ids_snoc_num [OF key])
  have "Max (insert ?m (ids pk items)) = ?m"
  proof (cases "items = []")
    case True
    then show ?thesis by (simp add:)
  next
    case False
    then have "ids pk items \<noteq> {}"
      using ids_empty_iff [OF safe_keys_numeric [OF assms]] by simp
    then show ?thesis
      using False finite_ids [of pk items] by (simp add: max_def)
  qed
  then show ?thesis
    using key ids_eq by simp
qed

lemma delete_eq:
  "delete items pk ident =
     (filter (\<lambda>r. \<not> strict_eq (getProp r pk) ident) items,
      \<exists>r \<in> set items. strict_eq (getProp r pk) ident)"
proof (cases "\<exists>r \<in> set items. strict_eq (getProp r pk) ident")
  case True
  then have "length (filter (\<lambda>r. \<not> strict_eq (getProp r pk) ident) items) < length items"
    by (auto intro: length_filter_less)
  with True show ?thesis
    by (simp add: delete_def Let_def)
next
  case False
  then have "filter (\<lambda>r. \<not> strict_eq (getProp r pk) ident) items = items"
    by (auto simp: filter_id_conv)
  with False show ?thesis
    by (simp add: delete_def Let_def)
qed

lemma create_then_delete:
  assumes "safe_keys pk items"
  shows "delete (fst (create s2n items pk item)) pk (getProp (snd (create s2n items pk item)) pk)
           = (items, True)"
proof -
  let ?new = "snd (create s2n items pk item)"
  have self: "strict_eq (getProp ?new pk) (getProp ?new pk)"
    by (simp add: create_key_value [OF assms] strict_eq_def)
  have "filter (\<lambda>r. \<not> strict_eq (getProp r pk) (getProp ?new pk)) items = items"
    using create_key_fresh [OF assms, of s2n item] by (auto simp: filter_id_conv)
  then show ?thesis
    using self by (simp add: delete_eq create_appends)
qed

lemma update_found:
  assumes "findIndex (\<lambda>item. strict_eq (getProp item pk) ident) items = Some i"
  shows "update items pk ident updates = (items[i := items ! i ++ updates], Some (items ! i ++ updates))"
  using assms findIndex_Some [OF assms] by (simp add: update_def Let_def)

lemma update_absent:
  assumes "findIndex (\<lambda>item. strict_eq (getProp item pk) ident) items = None"
  shows "update items pk ident updates = (items, None)"
  using assms by (simp add: update_def)

lemma distinct_keys_nth:
  "distinct_keys pk items \<longleftrightarrow>
     (\<forall>i < length items. \<forall>j < length items. i \<noteq> j \<longrightarrow>
        \<not> strict_eq (getProp (items ! i) pk) (getProp (items ! j) pk))"
proof (induction items)
  case Nil
  then show ?case by simp
next
  case (Cons r rs)
  have sym: "\<And>a b. strict_eq a b = strict_eq b a"
    by (auto simp: strict_eq_def)
  show ?case (is "?L = ?R")
  proof
    assume L: ?L
    then have hd: "\<forall>s \<in> set rs. \<not> strict_eq (getProp r pk) (getProp s pk)"
      and tl: "\<forall>i < length rs. \<forall>j < length rs. i \<noteq> j \<longrightarrow>
        \<not> strict_eq (getProp (rs ! i) pk) (getProp (rs ! j) pk)"
      using Cons.IH by (auto simp: list_all_iff)
    show ?R
    proof (intro allI impI)
      fix i j
      assume "i < length (r # rs)" "j < length (r # rs)" "i \<noteq> j"
      then show "\<not> strict_eq (getProp ((r # rs) ! i) pk) (getProp ((r # rs) ! j) pk)"
        using hd tl sym by (cases i; cases j) auto
    qed
  next
    assume R: ?R
    have "\<forall>s \<in> set rs. \<not> strict_eq (getProp r pk) (getProp s pk)"
    proof
      fix s assume "s \<in> set rs"
      then obtain k where "k < length rs" "rs ! k = s"
        by (auto simp: in_set_conv_nth)
      then show "\<not> strict_eq (getProp r pk) (getProp s pk)"
        using R [rule_format, of 0 "Suc k"] by simp
    qed
    moreover have "distinct_keys pk rs"
      unfolding Cons.IH
    proof (intro allI impI)
      fix i j
      assume "i < length rs" "j < length rs" "i \<noteq> j"
      then show "\<not> strict_eq (getProp (rs ! i) pk) (getProp (rs ! j) pk)"
        using R [rule_format, of "Suc i" "Suc j"] by simp
    qed
    ultimately show ?L
      by (simp add: list_all_iff)
  qed
qed

lemma distinct_keys_snoc:
  "distinct_keys pk (xs @ [y]) \<longleftrightarrow>
     distinct_keys pk xs \<and> (\<forall>r \<in> set xs. \<not> strict_eq (getProp r pk) (getProp y pk))"
  by (induction xs) (auto simp: list_all_iff)

lemma distinct_keys_filter: "distinct_keys pk xs \<Longrightarrow> distinct_keys pk (filter P xs)"
  by (induction xs) (auto simp: list_all_iff)

lemma distinct_keys_matches:
  "distinct_keys pk items \<Longrightarrow> length (filter (\<lambda>r. strict_eq (getProp r pk) ident) items) \<le> 1"
proof (induction items)
  case Nil
  then show ?case by simp
next
  case (Cons r rs)
  show ?case
  proof (cases "strict_eq (getProp r pk) ident")
    case True
    have "filter (\<lambda>s. strict_eq (getProp s pk) ident) rs = []"
      using Cons.prems True by (auto simp: filter_empty_conv list_all_iff strict_eq_def)
    with True show ?thesis by simp
  next
    case False
    with Cons show ?thesis by simp
  qed
qed

lemma update_preserves_distinct_keys:
  assumes d: "distinct_keys pk items"
    and c: "\<forall>v. updates pk = Some v \<longrightarrow>
              (\<forall>r \<in> set items. strict_eq (getProp r pk) v \<longrightarrow> strict_eq (getProp r pk) ident)"
  shows "distinct_keys pk (fst (update items pk ident updates))"
proof (cases "findIndex (\<lambda>item. strict_eq (getProp item pk) ident) items")
  case None
  then show ?thesis
    using d by (simp add: update_absent)
next
  case (Some i)
  note first = findIndex_Some [OF Some]
  let ?merged = "items ! i ++ updates"
  let ?items' = "items[i := ?merged]"
  have sep: "\<not> strict_eq (getProp (items ! a) pk) (getProp (items ! b) pk)"
    if "a < length items" "b < length items" "a \<noteq> b" for a b
    using d that unfolding distinct_keys_nth by blast
  have new_vs_old: "\<not> strict_eq (getProp ?merged pk) (getProp (items ! b) pk)"
    if b: "b < length items" "b \<noteq> i" for b
  proof (cases "updates pk")
    case None
    then have "getProp ?merged pk = getProp (items ! i) pk"
      by (simp add: getProp_map_add)
    with sep [of i b] first b show ?thesis by simp
  next
    case (Some v)
    then have key: "getProp ?merged pk = v"
      by (simp add: getProp_map_add)
    show ?thesis
    proof
      assume "strict_eq (getProp ?merged pk) (getProp (items ! b) pk)"
      then have "strict_eq (getProp (items ! b) pk) v"
        by (simp add: key strict_eq_sym)
      moreover have "items ! b \<in> set items"
        using b by simp
      ultimately have "strict_eq (getProp (items ! b) pk) ident"
        using c Some by blast
      with first have "strict_eq (getProp (items ! i) pk) (getProp (items ! b) pk)"
        by (auto simp: strict_eq_def)
      with sep [of i b] first b show False by simp
    qed
  qed
  have "distinct_keys pk ?items'"
    unfolding distinct_keys_nth
  proof (intro allI impI)
    fix a b
    assume ab: "a < length ?items'" "b < length ?items'" "a \<noteq> b"
    show "\<not> strict_eq (getProp (?items' ! a) pk) (getProp (?items' ! b) pk)"
    proof (cases "a = i")
      case True
      with ab new_vs_old [of b] first show ?thesis by simp
    next
      case a: False
      show ?thesis
      proof (cases "b = i")
        case True
        with ab a new_vs_old [of a] first show ?thesis
          by (simp add: strict_eq_sym)
      next
        case False
        with ab a sep [of a b] show ?thesis by simp
      qed
    qed
  qed
  then show ?thesis
    by (simp add: update_found [OF Some])
qed

lemma filter_related: "filter (\<lambda>r. strict_eq (getProp r fk) parent) rs = related fk parent rs"
  by (induction rs) auto

lemma find_related:
  "List.find (\<lambda>r. strict_eq (getProp r fk) parent) rs =
     (case related fk parent rs of [] \<Rightarrow> None | r # _ \<Rightarrow> Some r)"
  by (induction rs) auto

section \<open>Properties of the CRUD service and of the relationship queries\<close>

text \<open>
  Claim C1, as amended. On a sequence whose primary keys are all numeric, \<open>create\<close> builds
  the new record as the supplied fields with the new id stored under the primary-key field,
  appends it at the end of the sequence and returns it. The new id is the maximum of the
  existing ids plus \<open>1\<close> as doubles add; when the ids are safe integers (integers of
  magnitude below \<open>2^53\<close>) it is exactly \<open>max(existing ids) + 1\<close>, and it is \<open>1\<close> on the
  empty sequence.
\<close>

theorem create_assigns_next_id:
  assumes "numeric_keys primaryKey items"
  shows "create s2n items primaryKey item =
           (items @ [item(primaryKey \<mapsto> VNum (next_id primaryKey items))],
            item(primaryKey \<mapsto> VNum (next_id primaryKey items))) \<and>
         (safe_keys primaryKey items \<longrightarrow>
            next_id primaryKey items =
              Fin (if items = [] then 1 else Max (ids primaryKey items) + 1))"
  using create_eq [OF assms] next_id_safe by blast

theorem create_assigns_next_id_witness:
  "numeric_keys ''id''
     [[''id'' \<mapsto> VNum (Fin 1)], [''id'' \<mapsto> VNum (Fin 2)], [''id'' \<mapsto> VNum (Fin 3)]] \<and>
   safe_keys ''id''
     [[''id'' \<mapsto> VNum (Fin 1)], [''id'' \<mapsto> VNum (Fin 2)], [''id'' \<mapsto> VNum (Fin 3)]] \<and>
   create (\<lambda>_. NaN)
     [[''id'' \<mapsto> VNum (Fin 1)], [''id'' \<mapsto> VNum (Fin 2)], [''id'' \<mapsto> VNum (Fin 3)]]
     ''id'' Map.empty =
     ([[''id'' \<mapsto> VNum (Fin 1)], [''id'' \<mapsto> VNum (Fin 2)], [''id'' \<mapsto> VNum (Fin 3)],
       [''id'' \<mapsto> VNum (Fin 4)]],
      [''id'' \<mapsto> VNum (Fin 4)])"
proof -
  let ?items = "[[''id'' \<mapsto> VNum (Fin 1)], [''id'' \<mapsto> VNum (Fin 2)], [''id'' \<mapsto> VNum (Fin 3)]]"
  have h: "numeric_keys ''id'' ?items"
    by (simp add: numeric_keys_def getProp_def)
  have g: "safe_keys ''id'' ?items"
    by (simp add: safe_keys_def getProp_def)
  have m: "Max (ids ''id'' ?items) = 3"
    by (simp add: ids_Cons_num getProp_def)
  from create_assigns_next_id [OF h, where ?s2n = "\<lambda>_. NaN" and ?item = Map.empty] g
  have "create (\<lambda>_. NaN) ?items ''id'' Map.empty =
          (?items @ [[''id'' \<mapsto> VNum (next_id ''id'' ?items)]],
           [''id'' \<mapsto> VNum (next_id ''id'' ?items)])"
    and "next_id ''id'' ?items = Fin (Max (ids ''id'' ?items) + 1)"
    by simp_all
  then show ?thesis
    using h g by (simp add: m)
qed

text \<open>
  Claim C1 as stated fails beyond the safe integers: with the single id \<open>2^53\<close>, the sum
  \<open>2^53 + 1\<close> is no double and rounds to \<open>2^53\<close>, so \<open>create\<close> assigns \<open>2^53\<close> again.
\<close>

theorem create_assigns_next_id_counterexample:
  "numeric_keys ''id'' [[''id'' \<mapsto> VNum (Fin (2 ^ 53))]] \<and>
   create (\<lambda>_. NaN) [[''id'' \<mapsto> VNum (Fin (2 ^ 53))]] ''id'' Map.empty =
     ([[''id'' \<mapsto> VNum (Fin (2 ^ 53))], [''id'' \<mapsto> VNum (Fin (2 ^ 53))]],
      [''id'' \<mapsto> VNum (Fin (2 ^ 53))])"
  by (simp add: numeric_keys_def create_def Math_max_def getProp_def round64_def ilog2.simps
      pow2_def round_even_def Let_def)

text \<open>
  Claim C2, as amended. Starting from pairwise distinct primary keys, \<open>delete\<close> keeps the
  keys pairwise distinct; \<open>create\<close> does when the keys are safe integers (integers of
  magnitude below \<open>2^53\<close>); \<open>update\<close> does provided the partial fields either leave the
  primary-key field out or give it a value that no record other than the updated one
  carries.
\<close>

theorem crud_preserves_distinct_keys:
  assumes "distinct_keys primaryKey items"
  shows "(safe_keys primaryKey items \<longrightarrow>
            distinct_keys primaryKey (fst (create s2n items primaryKey item))) \<and>
         distinct_keys primaryKey (fst (delete items primaryKey ident)) \<and>
         ((\<forall>v. updates primaryKey = Some v \<longrightarrow>
             (\<forall>r \<in> set items. strict_eq (getProp r primaryKey) v \<longrightarrow>
                strict_eq (getProp r primaryKey) ident)) \<longrightarrow>
          distinct_keys primaryKey (fst (update items primaryKey ident updates)))"
proof (intro conjI impI)
  show "distinct_keys primaryKey (fst (create s2n items primaryKey item))"
    if "safe_keys primaryKey items"
    using assms create_key_fresh [OF that, of s2n item]
    by (simp add: create_appends distinct_keys_snoc)
  show "distinct_keys primaryKey (fst (delete items primaryKey ident))"
    using assms by (simp add: delete_eq distinct_keys_filter)
  show "distinct_keys primaryKey (fst (update items primaryKey ident updates))"
    if "\<forall>v. updates primaryKey = Some v \<longrightarrow>
             (\<forall>r \<in> set items. strict_eq (getProp r primaryKey) v \<longrightarrow>
                strict_eq (getProp r primaryKey) ident)"
    using assms that by (rule update_preserves_distinct_keys)
qed

theorem crud_preserves_distinct_keys_witness:
  "distinct_keys ''id'' [[''id'' \<mapsto> VNum (Fin 1)], [''id'' \<mapsto> VNum (Fin 2)]] \<and>
   safe_keys ''id'' [[''id'' \<mapsto> VNum (Fin 1)], [''id'' \<mapsto> VNum (Fin 2)]] \<and>
   distinct_keys ''id''
     (fst (create (\<lambda>_. NaN) [[''id'' \<mapsto> VNum (Fin 1)], [''id'' \<mapsto> VNum (Fin 2)]] ''id''
             [''name'' \<mapsto> VStr ''c''])) \<and>
   distinct_keys ''id''
     (fst (delete [[''id'' \<mapsto> VNum (Fin 1)], [''id'' \<mapsto> VNum (Fin 2)]] ''id'' (VNum (Fin 1)))) \<and>
   distinct_keys ''id''
     (fst (update [[''id'' \<mapsto> VNum (Fin 1)], [''id'' \<mapsto> VNum (Fin 2)]] ''id'' (VNum (Fin 1))
             [''name'' \<mapsto> VStr ''z'']))"
proof -
  have h: "distinct_keys ''id'' [[''id'' \<mapsto> VNum (Fin 1)], [''id'' \<mapsto> VNum (Fin 2)]]"
    by (simp add: getProp_def strict_eq_def)
  have g: "safe_keys ''id'' [[''id'' \<mapsto> VNum (Fin 1)], [''id'' \<mapsto> VNum (Fin 2)]]"
    by (simp add: safe_keys_def getProp_def)
  have u: "\<forall>v. [''name'' \<mapsto> VStr ''z''] ''id'' = Some v \<longrightarrow>
      (\<forall>r \<in> set [[''id'' \<mapsto> VNum (Fin 1)], [''id'' \<mapsto> VNum (Fin 2)]].
         strict_eq (getProp r ''id'') v \<longrightarrow> strict_eq (getProp r ''id'') (VNum (Fin 1)))"
    by simp
  show ?thesis
    using h g u
      crud_preserves_distinct_keys [OF h, where ?s2n = "\<lambda>_. NaN"
        and ?item = "[''name'' \<mapsto> VStr ''c'']" and ?ident = "VNum (Fin 1)"
        and ?updates = "[''name'' \<mapsto> VStr ''z'']"]
    by blast
qed

text \<open>
  Claim C2 as stated fails for \<open>update\<close>: the partial fields may name the primary key.
  In the sequence with ids 1 and 2, \<open>update(1, {id: 2})\<close> leaves two records with id 2.
  It also fails for \<open>create\<close> beyond the safe integers: on the single id \<open>2^53\<close>, \<open>create\<close>
  assigns \<open>2^53\<close> a second time.
\<close>

theorem update_breaks_distinct_keys_counterexample:
  "distinct_keys ''id'' [[''id'' \<mapsto> VNum (Fin 1)], [''id'' \<mapsto> VNum (Fin 2)]] \<and>
   \<not> distinct_keys ''id''
       (fst (update [[''id'' \<mapsto> VNum (Fin 1)], [''id'' \<mapsto> VNum (Fin 2)]] ''id'' (VNum (Fin 1))
               [''id'' \<mapsto> VNum (Fin 2)])) \<and>
   distinct_keys ''id'' [[''id'' \<mapsto> VNum (Fin (2 ^ 53))]] \<and>
   \<not> distinct_keys ''id''
       (fst (create (\<lambda>_. NaN) [[''id'' \<mapsto> VNum (Fin (2 ^ 53))]] ''id'' Map.empty))"
  by (simp add: update_def create_def Math_max_def getProp_def strict_eq_def round64_def
      ilog2.simps pow2_def round_even_def Let_def)

text \<open>
  Claim C3, as amended. Each of the eight queries \<open>getBusinessOffers\<close>,
  \<open>getBusinessFeedback\<close>, \<open>getBusinessAnalytics\<close>, \<open>getCustomerTransactions\<close>,
  \<open>getCustomerReferrals\<close>, \<open>getCustomerFeedback\<close>, \<open>getCustomerFraudDetections\<close> and
  \<open>getTransactionRedemptions\<close> returns all records of its sequence whose foreign-key field
  strictly equals the parent id, in the order of the sequence. \<open>getCustomerTier\<close> returns
  only the first such record of \<open>customerTiers\<close>, or absence when there is none.
\<close>

theorem related_records_of_queries:
  "getBusinessOffers st parent = related ''B_ID'' parent (offers st) \<and>
   getBusinessFeedback st parent = related ''B_ID'' parent (feedbacks st) \<and>
   getBusinessAnalytics st parent = related ''B_ID'' parent (analytics st) \<and>
   getCustomerTransactions st parent = related ''C_ID'' parent (transactions st) \<and>
   getCustomerReferrals st parent = related ''Referred_C_id'' parent (referralPrograms st) \<and>
   getCustomerFeedback st parent = related ''C_ID'' parent (feedbacks st) \<and>
   getCustomerFraudDetections st parent = related ''C_ID'' parent (fraudDetections st) \<and>
   getTransactionRedemptions st parent = related ''T_ID'' parent (redemptions st) \<and>
   getCustomerTier st parent =
     (case related ''C_ID'' parent (customerTiers st) of [] \<Rightarrow> None | r # _ \<Rightarrow> Some r)"
  by (simp add: getBusinessOffers_def getBusinessFeedback_def getBusinessAnalytics_def
      getCustomerTransactions_def getCustomerReferrals_def getCustomerFeedback_def
      getCustomerFraudDetections_def getTransactionRedemptions_def getCustomerTier_def
      filter_related find_related)

theorem related_records_of_queries_witness:
  "getBusinessOffers
     \<lparr>businesses = [], products = [], customers = [],
      offers = [[''offer_id'' \<mapsto> VNum (Fin 1), ''B_ID'' \<mapsto> VNum (Fin 1)],
                [''offer_id'' \<mapsto> VNum (Fin 2), ''B_ID'' \<mapsto> VNum (Fin 2)],
                [''offer_id'' \<mapsto> VNum (Fin 3), ''B_ID'' \<mapsto> VNum (Fin 1)]],
      transactions = [], redemptions = [], loyalties = [], tierSystems = [],
      customerTiers = [], referralPrograms = [], feedbacks = [], promotions = [],
      fraudDetections = [], analytics = []\<rparr> (VNum (Fin 1)) =
   [[''offer_id'' \<mapsto> VNum (Fin 1), ''B_ID'' \<mapsto> VNum (Fin 1)],
    [''offer_id'' \<mapsto> VNum (Fin 3), ''B_ID'' \<mapsto> VNum (Fin 1)]]"
  using related_records_of_queries
    [of "\<lparr>businesses = [], products = [], customers = [],
      offers = [[''offer_id'' \<mapsto> VNum (Fin 1), ''B_ID'' \<mapsto> VNum (Fin 1)],
                [''offer_id'' \<mapsto> VNum (Fin 2), ''B_ID'' \<mapsto> VNum (Fin 2)],
                [''offer_id'' \<mapsto> VNum (Fin 3), ''B_ID'' \<mapsto> VNum (Fin 1)]],
      transactions = [], redemptions = [], loyalties = [], tierSystems = [],
      customerTiers = [], referralPrograms = [], feedbacks = [], promotions = [],
      fraudDetections = [], analytics = []\<rparr>" "VNum (Fin 1)", THEN conjunct1]
  by (simp add: getProp_def strict_eq_def)

text \<open>
  Claim C3 as stated fails for \<open>getCustomerTier\<close>: with two tier records of customer 1
  it returns the first one only, not all records whose \<open>C_ID\<close> equals 1.
\<close>

theorem getCustomerTier_first_only_counterexample:
  "records_of (getCustomerTier
      \<lparr>businesses = [], products = [], customers = [], offers = [], transactions = [],
       redemptions = [], loyalties = [], tierSystems = [],
       customerTiers =
         [[''CT_ID'' \<mapsto> VNum (Fin 1), ''C_ID'' \<mapsto> VNum (Fin 1), ''tier_id'' \<mapsto> VNum (Fin 3)],
          [''CT_ID'' \<mapsto> VNum (Fin 2), ''C_ID'' \<mapsto> VNum (Fin 1), ''tier_id'' \<mapsto> VNum (Fin 2)]],
       referralPrograms = [], feedbacks = [], promotions = [], fraudDetections = [],
       analytics = []\<rparr> (VNum (Fin 1)))
   \<noteq> related ''C_ID'' (VNum (Fin 1))
      [[''CT_ID'' \<mapsto> VNum (Fin 1), ''C_ID'' \<mapsto> VNum (Fin 1), ''tier_id'' \<mapsto> VNum (Fin 3)],
       [''CT_ID'' \<mapsto> VNum (Fin 2), ''C_ID'' \<mapsto> VNum (Fin 1), ''tier_id'' \<mapsto> VNum (Fin 2)]]"
  by (simp add: getCustomerTier_def records_of_def getProp_def strict_eq_def)

text \<open>
  Claim C4, as amended. \<open>delete(id)\<close> removes every record whose primary key strictly
  equals \<open>id\<close> and returns whether there was one: the length drops by the number of
  matching records, which is exactly one when the primary keys are pairwise distinct. When
  no record matches, the sequence is unchanged and the result is \<open>false\<close>.
\<close>

theorem delete_removes_every_match:
  "delete items primaryKey ident =
     (filter (\<lambda>r. \<not> strict_eq (getProp r primaryKey) ident) items,
      \<exists>r \<in> set items. strict_eq (getProp r primaryKey) ident) \<and>
   length (fst (delete items primaryKey ident)) +
     length (filter (\<lambda>r. strict_eq (getProp r primaryKey) ident) items) = length items \<and>
   (distinct_keys primaryKey items \<and> (\<exists>r \<in> set items. strict_eq (getProp r primaryKey) ident) \<longrightarrow>
      length (fst (delete items primaryKey ident)) + 1 = length items \<and>
      snd (delete items primaryKey ident)) \<and>
   ((\<forall>r \<in> set items. \<not> strict_eq (getProp r primaryKey) ident) \<longrightarrow>
      delete items primaryKey ident = (items, False))"
proof -
  let ?m = "\<lambda>r. strict_eq (getProp r primaryKey) ident"
  have split: "length (filter (\<lambda>r. \<not> ?m r) items) + length (filter ?m items) = length items"
    using sum_length_filter_compl [of ?m items] by simp
  have one: "length (filter ?m items) = 1"
    if "distinct_keys primaryKey items" "\<exists>r \<in> set items. ?m r"
  proof -
    from that(2) obtain r where "r \<in> set (filter ?m items)"
      by auto
    then have "0 < length (filter ?m items)"
      by (rule length_pos_if_in_set)
    with distinct_keys_matches [OF that(1), of ident] show ?thesis
      by linarith
  qed
  have none: "filter (\<lambda>r. \<not> ?m r) items = items" if "\<forall>r \<in> set items. \<not> ?m r"
    using that by (auto simp: filter_id_conv)
  have fst_eq: "fst (delete items primaryKey ident) = filter (\<lambda>r. \<not> ?m r) items"
    and snd_eq: "snd (delete items primaryKey ident) = (\<exists>r \<in> set items. ?m r)"
    by (simp_all add: delete_eq)
  have unique: "length (fst (delete items primaryKey ident)) + 1 = length items \<and>
      snd (delete items primaryKey ident)"
    if both: "distinct_keys primaryKey items \<and> (\<exists>r \<in> set items. ?m r)"
  proof -
    have "length (filter ?m items) = 1"
      using one both by blast
    with split have "length (filter (\<lambda>r. \<not> ?m r) items) + 1 = length items"
      by simp
    with both show ?thesis
      unfolding fst_eq snd_eq by blast
  qed
  have absent: "delete items primaryKey ident = (items, False)" if "\<forall>r \<in> set items. \<not> ?m r"
    using that none by (simp add: delete_eq)
  show ?thesis
    using delete_eq [of items primaryKey ident] split unique absent
    unfolding fst_eq by blast
qed

theorem delete_removes_every_match_witness:
  "distinct_keys ''id''
     [[''id'' \<mapsto> VNum (Fin 1)], [''id'' \<mapsto> VNum (Fin 2)], [''id'' \<mapsto> VNum (Fin 3)],
      [''id'' \<mapsto> VNum (Fin 4)]] \<and>
   strict_eq (getProp [''id'' \<mapsto> VNum (Fin 2)] ''id'') (VNum (Fin 2)) \<and>
   length (fst (delete
     [[''id'' \<mapsto> VNum (Fin 1)], [''id'' \<mapsto> VNum (Fin 2)], [''id'' \<mapsto> VNum (Fin 3)],
      [''id'' \<mapsto> VNum (Fin 4)]]
     ''id'' (VNum (Fin 2)))) + 1 = 4 \<and>
   snd (delete
     [[''id'' \<mapsto> VNum (Fin 1)], [''id'' \<mapsto> VNum (Fin 2)], [''id'' \<mapsto> VNum (Fin 3)],
      [''id'' \<mapsto> VNum (Fin 4)]]
     ''id'' (VNum (Fin 2))) \<and>
   delete [[''id'' \<mapsto> VNum (Fin 1)], [''id'' \<mapsto> VNum (Fin 3)], [''id'' \<mapsto> VNum (Fin 4)]]
     ''id'' (VNum (Fin 2)) =
     ([[''id'' \<mapsto> VNum (Fin 1)], [''id'' \<mapsto> VNum (Fin 3)], [''id'' \<mapsto> VNum (Fin 4)]], False)"
proof -
  let ?items = "[[''id'' \<mapsto> VNum (Fin 1)], [''id'' \<mapsto> VNum (Fin 2)], [''id'' \<mapsto> VNum (Fin 3)],
                 [''id'' \<mapsto> VNum (Fin 4)]]"
  let ?rest = "[[''id'' \<mapsto> VNum (Fin 1)], [''id'' \<mapsto> VNum (Fin 3)], [''id'' \<mapsto> VNum (Fin 4)]]"
  have d: "distinct_keys ''id'' ?items"
    by (simp add: getProp_def strict_eq_def)
  have m: "strict_eq (getProp [''id'' \<mapsto> VNum (Fin 2)] ''id'') (VNum (Fin 2))"
    by (simp add: getProp_def strict_eq_def)
  then have e: "\<exists>r \<in> set ?items. strict_eq (getProp r ''id'') (VNum (Fin 2))"
    by simp
  have n: "\<forall>r \<in> set ?rest. \<not> strict_eq (getProp r ''id'') (VNum (Fin 2))"
    by (simp add: getProp_def strict_eq_def)
  have "length (fst (delete ?items ''id'' (VNum (Fin 2)))) + 1 = length ?items \<and>
      snd (delete ?items ''id'' (VNum (Fin 2)))"
    using d e delete_removes_every_match [of ?items "''id''" "VNum (Fin 2)"]
    by blast
  moreover have "length ?items = 4"
    by simp
  moreover have "delete ?rest ''id'' (VNum (Fin 2)) = (?rest, False)"
    using n delete_removes_every_match [of ?rest "''id''" "VNum (Fin 2)"]
    by blast
  ultimately show ?thesis
    using d m by (simp only:)
qed

text \<open>
  Claim C4 as stated fails when two records carry the id: \<open>delete(1)\<close> removes both, so
  the length drops by two and not only the first match is removed.
\<close>

theorem delete_removes_every_match_counterexample:
  "delete [[''id'' \<mapsto> VNum (Fin 1), ''name'' \<mapsto> VStr ''a''],
           [''id'' \<mapsto> VNum (Fin 1), ''name'' \<mapsto> VStr ''b''],
           [''id'' \<mapsto> VNum (Fin 2), ''name'' \<mapsto> VStr ''c'']] ''id'' (VNum (Fin 1))
     = ([[''id'' \<mapsto> VNum (Fin 2), ''name'' \<mapsto> VStr ''c'']], True)"
  by (simp add: delete_def getProp_def strict_eq_def)

text \<open>
  Claim C5. When some record matches \<open>id\<close>, \<open>update(id, partialFields)\<close> returns the first
  matching record with the partial fields overlaid: a field named in the partial fields
  takes its value from there, every other field keeps the value of the old record. The
  merged record replaces the old one at its position; the length of the sequence and every
  other position are unchanged.
\<close>

theorem update_overlays_first_match:
  assumes "\<exists>r \<in> set items. strict_eq (getProp r primaryKey) ident"
  shows "\<exists>i < length items.
           strict_eq (getProp (items ! i) primaryKey) ident \<and>
           (\<forall>j < i. \<not> strict_eq (getProp (items ! j) primaryKey) ident) \<and>
           snd (update items primaryKey ident updates) = Some (items ! i ++ updates) \<and>
           (\<forall>k. (items ! i ++ updates) k =
                 (case updates k of Some v \<Rightarrow> Some v | None \<Rightarrow> (items ! i) k)) \<and>
           length (fst (update items primaryKey ident updates)) = length items \<and>
           fst (update items primaryKey ident updates) ! i = items ! i ++ updates \<and>
           (\<forall>j < length items. j \<noteq> i \<longrightarrow>
              fst (update items primaryKey ident updates) ! j = items ! j)"
proof -
  obtain i where i: "findIndex (\<lambda>item. strict_eq (getProp item primaryKey) ident) items = Some i"
    using findIndex_exists [OF assms] by blast
  note first = findIndex_Some [OF i]
  note upd = update_found [OF i, of updates]
  have merge: "\<forall>k. (items ! i ++ updates) k =
      (case updates k of Some v \<Rightarrow> Some v | None \<Rightarrow> (items ! i) k)"
    by (simp add: map_add_def split: option.splits)
  show ?thesis
  proof (intro exI [of _ i] conjI)
    show "i < length items" using first by simp
    show "strict_eq (getProp (items ! i) primaryKey) ident" using first by simp
    show "\<forall>j < i. \<not> strict_eq (getProp (items ! j) primaryKey) ident" using first by simp
    show "snd (update items primaryKey ident updates) = Some (items ! i ++ updates)"
      by (simp add: upd)
    show "\<forall>k. (items ! i ++ updates) k =
      (case updates k of Some v \<Rightarrow> Some v | None \<Rightarrow> (items ! i) k)"
      by (rule merge)
    show "length (fst (update items primaryKey ident updates)) = length items"
      by (simp add: upd)
    show "fst (update items primaryKey ident updates) ! i = items ! i ++ updates"
      using first by (simp add: upd)
    show "\<forall>j < length items. j \<noteq> i \<longrightarrow>
        fst (update items primaryKey ident updates) ! j = items ! j"
      by (simp add: upd)
  qed
qed

theorem update_overlays_first_match_witness:
  "strict_eq (getProp [''id'' \<mapsto> VNum (Fin 2), ''name'' \<mapsto> VStr ''b''] ''id'') (VNum (Fin 2)) \<and>
   snd (update [[''id'' \<mapsto> VNum (Fin 1), ''name'' \<mapsto> VStr ''a''],
                [''id'' \<mapsto> VNum (Fin 2), ''name'' \<mapsto> VStr ''b'']] ''id'' (VNum (Fin 2))
          [''name'' \<mapsto> VStr ''z'']) =
     Some [''id'' \<mapsto> VNum (Fin 2), ''name'' \<mapsto> VStr ''z''] \<and>
   fst (update [[''id'' \<mapsto> VNum (Fin 1), ''name'' \<mapsto> VStr ''a''],
                [''id'' \<mapsto> VNum (Fin 2), ''name'' \<mapsto> VStr ''b'']] ''id'' (VNum (Fin 2))
          [''name'' \<mapsto> VStr ''z'']) ! 0 =
     [''id'' \<mapsto> VNum (Fin 1), ''name'' \<mapsto> VStr ''a'']"
proof -
  let ?items = "[[''id'' \<mapsto> VNum (Fin 1), ''name'' \<mapsto> VStr ''a''],
                 [''id'' \<mapsto> VNum (Fin 2), ''name'' \<mapsto> VStr ''b'']]"
  let ?u = "[''name'' \<mapsto> VStr ''z'']"
  have m: "strict_eq (getProp [''id'' \<mapsto> VNum (Fin 2), ''name'' \<mapsto> VStr ''b''] ''id'') (VNum (Fin 2))"
    by (simp add: getProp_def strict_eq_def)
  then have h: "\<exists>r \<in> set ?items. strict_eq (getProp r ''id'') (VNum (Fin 2))"
    by simp
  from update_overlays_first_match [OF h, of ?u] obtain i where
    i: "i < length ?items" "strict_eq (getProp (?items ! i) ''id'') (VNum (Fin 2))"
    and res: "snd (update ?items ''id'' (VNum (Fin 2)) ?u) = Some (?items ! i ++ ?u)"
    and frame: "\<forall>j < length ?items. j \<noteq> i \<longrightarrow>
        fst (update ?items ''id'' (VNum (Fin 2)) ?u) ! j = ?items ! j"
    by blast
  have "i \<noteq> 0"
  proof
    assume "i = 0"
    with i(2) show False
      by (simp add: getProp_def strict_eq_def)
  qed
  with i(1) have i1: "i = 1"
    by simp
  have "snd (update ?items ''id'' (VNum (Fin 2)) ?u) =
      Some [''id'' \<mapsto> VNum (Fin 2), ''name'' \<mapsto> VStr ''z'']"
    using res by (simp add: i1)
  moreover have "fst (update ?items ''id'' (VNum (Fin 2)) ?u) ! 0 = ?items ! 0"
    using frame i1 by simp
  ultimately show ?thesis
    using m by simp
qed

text \<open>
  Claim C6, as amended. On a sequence whose primary keys are safe integers (integers of
  magnitude below \<open>2^53\<close>), \<open>create\<close> followed by \<open>delete\<close> of the id of the record that
  \<open>create\<close> returned removes a record and leaves exactly the original sequence: \<open>list()\<close>
  then returns the original records in the original order.
\<close>

theorem create_then_delete_restores:
  assumes "safe_keys primaryKey items"
  shows "(case create s2n items primaryKey item of
            (items1, newItem) \<Rightarrow>
              (case delete items1 primaryKey (getProp newItem primaryKey) of
                 (items2, removed) \<Rightarrow> removed \<and> getAll items2 = items))"
  using create_then_delete [OF assms, of s2n item]
  by (auto simp: getAll_def split: prod.splits)

theorem create_then_delete_restores_witness:
  "safe_keys ''id'' [[''id'' \<mapsto> VNum (Fin 1)], [''id'' \<mapsto> VNum (Fin 5)]] \<and>
   snd (delete (fst (create (\<lambda>_. NaN) [[''id'' \<mapsto> VNum (Fin 1)], [''id'' \<mapsto> VNum (Fin 5)]] ''id''
                       [''name'' \<mapsto> VStr ''n'']))
          ''id''
          (getProp (snd (create (\<lambda>_. NaN) [[''id'' \<mapsto> VNum (Fin 1)], [''id'' \<mapsto> VNum (Fin 5)]] ''id''
                           [''name'' \<mapsto> VStr ''n''])) ''id'')) \<and>
   getAll (fst (delete (fst (create (\<lambda>_. NaN) [[''id'' \<mapsto> VNum (Fin 1)], [''id'' \<mapsto> VNum (Fin 5)]] ''id''
                               [''name'' \<mapsto> VStr ''n'']))
                  ''id''
                  (getProp (snd (create (\<lambda>_. NaN) [[''id'' \<mapsto> VNum (Fin 1)], [''id'' \<mapsto> VNum (Fin 5)]]
                                   ''id'' [''name'' \<mapsto> VStr ''n''])) ''id''))) =
     [[''id'' \<mapsto> VNum (Fin 1)], [''id'' \<mapsto> VNum (Fin 5)]]"
proof -
  have h: "safe_keys ''id'' [[''id'' \<mapsto> VNum (Fin 1)], [''id'' \<mapsto> VNum (Fin 5)]]"
    by (simp add: safe_keys_def getProp_def)
  show ?thesis
    using h create_then_delete_restores [OF h, where ?s2n = "\<lambda>_. NaN"
        and ?item = "[''name'' \<mapsto> VStr ''n'']"]
    by (simp add: case_prod_beta)
qed

text \<open>
  Claim C6 as stated fails beyond the safe integers: on the single id \<open>2^53\<close>, \<open>create\<close>
  assigns \<open>2^53\<close> again, and \<open>delete\<close> of that id removes both records, so \<open>list()\<close>
  returns the empty sequence and not the original one.
\<close>

theorem create_then_delete_restores_counterexample:
  "numeric_keys ''id'' [[''id'' \<mapsto> VNum (Fin (2 ^ 53))]] \<and>
   getAll (fst (delete
     (fst (create (\<lambda>_. NaN) [[''id'' \<mapsto> VNum (Fin (2 ^ 53))]] ''id'' Map.empty))
     ''id''
     (getProp (snd (create (\<lambda>_. NaN) [[''id'' \<mapsto> VNum (Fin (2 ^ 53))]] ''id'' Map.empty))
        ''id''))) = []"
  by (simp add: numeric_keys_def getAll_def delete_def create_def Math_max_def getProp_def
      strict_eq_def round64_def ilog2.simps pow2_def round_even_def Let_def)

text \<open>
  Claim C7. When no record matches \<open>id\<close>, \<open>getById\<close> returns absence, \<open>update\<close> returns
  absence and \<open>delete\<close> returns \<open>false\<close>; each is an ordinary result (the operations have
  no failing branch), and the sequence after \<open>update\<close> and after \<open>delete\<close> is the sequence
  before (\<open>getById\<close> does not write).
\<close>

theorem missing_id_is_absence:
  assumes "\<forall>r \<in> set items. \<not> strict_eq (getProp r primaryKey) ident"
  shows "getById items primaryKey ident = None \<and>
         update items primaryKey ident updates = (items, None) \<and>
         delete items primaryKey ident = (items, False)"
proof -
  have "findIndex (\<lambda>item. strict_eq (getProp item primaryKey) ident) items = None"
    using assms by (simp add: findIndex_None)
  moreover have "List.find (\<lambda>item. strict_eq (getProp item primaryKey) ident) items = None"
    using assms by (simp add: find_None_iff)
  ultimately show ?thesis
    using assms by (simp add: getById_def update_def delete_eq filter_id_conv)
qed

theorem missing_id_is_absence_witness:
  "\<not> strict_eq (getProp [''id'' \<mapsto> VNum (Fin 1)] ''id'') (VNum (Fin 7)) \<and>
   \<not> strict_eq (getProp [''id'' \<mapsto> VNum (Fin 3)] ''id'') (VNum (Fin 7)) \<and>
   getById [[''id'' \<mapsto> VNum (Fin 1)], [''id'' \<mapsto> VNum (Fin 3)]] ''id'' (VNum (Fin 7)) = None \<and>
   update [[''id'' \<mapsto> VNum (Fin 1)], [''id'' \<mapsto> VNum (Fin 3)]] ''id'' (VNum (Fin 7))
     [''name'' \<mapsto> VStr ''z''] = ([[''id'' \<mapsto> VNum (Fin 1)], [''id'' \<mapsto> VNum (Fin 3)]], None) \<and>
   delete [[''id'' \<mapsto> VNum (Fin 1)], [''id'' \<mapsto> VNum (Fin 3)]] ''id'' (VNum (Fin 7)) =
     ([[''id'' \<mapsto> VNum (Fin 1)], [''id'' \<mapsto> VNum (Fin 3)]], False)"
proof -
  have a: "\<not> strict_eq (getProp [''id'' \<mapsto> VNum (Fin 1)] ''id'') (VNum (Fin 7))"
    and b: "\<not> strict_eq (getProp [''id'' \<mapsto> VNum (Fin 3)] ''id'') (VNum (Fin 7))"
    by (simp_all add: getProp_def strict_eq_def)
  then have h: "\<forall>r \<in> set [[''id'' \<mapsto> VNum (Fin 1)], [''id'' \<mapsto> VNum (Fin 3)]].
      \<not> strict_eq (getProp r ''id'') (VNum (Fin 7))"
    by simp
  show ?thesis
    using a b missing_id_is_absence [OF h, of "[''name'' \<mapsto> VStr ''z'']"]
    by blast
qed

text \<open>
  Claim C8. \<open>getById(id)\<close> returns the first record, in sequence order, whose primary key
  is strictly equal to \<open>id\<close>, and absence exactly when no record's key is strictly equal
  to \<open>id\<close>; a string argument matches no numeric key.
\<close>

theorem getById_first_strict_match:
  "(getById items primaryKey ident = Some r \<longleftrightarrow>
      (\<exists>i < length items. items ! i = r \<and> strict_eq (getProp (items ! i) primaryKey) ident \<and>
         (\<forall>j < i. \<not> strict_eq (getProp (items ! j) primaryKey) ident))) \<and>
   (getById items primaryKey ident = None \<longleftrightarrow>
      (\<forall>r \<in> set items. \<not> strict_eq (getProp r primaryKey) ident)) \<and>
   ((\<forall>r \<in> set items. \<exists>n. getProp r primaryKey = VNum n) \<longrightarrow>
      getById items primaryKey (VStr s) = None)"
proof -
  have "\<forall>r \<in> set items. \<not> strict_eq (getProp r primaryKey) (VStr s)"
    if "\<forall>r \<in> set items. \<exists>n. getProp r primaryKey = VNum n"
    using that by (auto simp: strict_eq_def)
  then show ?thesis
    unfolding getById_def find_Some_iff find_None_iff by auto
qed

theorem getById_first_strict_match_witness:
  "getById [[''id'' \<mapsto> VNum (Fin 1), ''name'' \<mapsto> VStr ''a''],
            [''id'' \<mapsto> VNum (Fin 2), ''name'' \<mapsto> VStr ''b''],
            [''id'' \<mapsto> VNum (Fin 2), ''name'' \<mapsto> VStr ''c'']] ''id'' (VNum (Fin 2)) =
     Some [''id'' \<mapsto> VNum (Fin 2), ''name'' \<mapsto> VStr ''b''] \<and>
   getById [[''id'' \<mapsto> VNum (Fin 1), ''name'' \<mapsto> VStr ''a''],
            [''id'' \<mapsto> VNum (Fin 2), ''name'' \<mapsto> VStr ''b''],
            [''id'' \<mapsto> VNum (Fin 2), ''name'' \<mapsto> VStr ''c'']] ''id'' (VStr ''2'') = None"
proof -
  let ?items = "[[''id'' \<mapsto> VNum (Fin 1), ''name'' \<mapsto> VStr ''a''],
            [''id'' \<mapsto> VNum (Fin 2), ''name'' \<mapsto> VStr ''b''],
            [''id'' \<mapsto> VNum (Fin 2), ''name'' \<mapsto> VStr ''c'']]"
  note inst = getById_first_strict_match [of ?items "''id''"]
  have first: "\<exists>i < length ?items.
      ?items ! i = [''id'' \<mapsto> VNum (Fin 2), ''name'' \<mapsto> VStr ''b''] \<and>
      strict_eq (getProp (?items ! i) ''id'') (VNum (Fin 2)) \<and>
      (\<forall>j < i. \<not> strict_eq (getProp (?items ! j) ''id'') (VNum (Fin 2)))"
    by (rule exI [of _ 1]) (simp add: getProp_def strict_eq_def)
  have numeric: "\<forall>r \<in> set ?items. \<exists>n. getProp r ''id'' = VNum n"
    by (simp add: getProp_def)
  have "getById ?items ''id'' (VNum (Fin 2)) = Some [''id'' \<mapsto> VNum (Fin 2), ''name'' \<mapsto> VStr ''b'']"
    using inst [of "VNum (Fin 2)" "[''id'' \<mapsto> VNum (Fin 2), ''name'' \<mapsto> VStr ''b'']" "''2''"] first
    by blast
  moreover have "getById ?items ''id'' (VStr ''2'') = None"
    using inst [of "VStr ''2''" "Map.empty" "''2''"] numeric
    by blast
  ultimately show ?thesis
    by blast
qed

text \<open>
  Claim C9. Ids are reused: there are sequences on which, after the record holding the
  maximum id is deleted, the next \<open>create\<close> assigns that id again. This is so on every
  sequence whose primary keys are safe integers (integers of magnitude below \<open>2^53\<close>): the
  record that \<open>create\<close> returns holds the maximum id; once that record is deleted, the next
  \<open>create\<close> assigns the same id again, whatever fields it is given.
\<close>

theorem deleted_id_is_reused:
  assumes "safe_keys primaryKey items"
  shows "(case create s2n items primaryKey item of
            (items1, first) \<Rightarrow>
              (\<exists>m. getProp first primaryKey = VNum (Fin m) \<and> m = Max (ids primaryKey items1)) \<and>
              (case delete items1 primaryKey (getProp first primaryKey) of
                 (items2, removed) \<Rightarrow>
                   removed \<and> first \<notin> set items2 \<and>
                   getProp (snd (create s2n items2 primaryKey item')) primaryKey =
                     getProp first primaryKey))"
proof -
  obtain first where c: "create s2n items primaryKey item = (items @ [first], first)"
    by (simp add: create_def Let_def)
  then have f: "fst (create s2n items primaryKey item) = items @ [first]"
    and s: "snd (create s2n items primaryKey item) = first"
    by simp_all
  have d: "delete (items @ [first]) primaryKey (getProp first primaryKey) = (items, True)"
    using create_then_delete [OF assms, of s2n item] unfolding f s .
  have mx: "\<exists>m. getProp first primaryKey = VNum (Fin m) \<and>
      m = Max (ids primaryKey (items @ [first]))"
    using create_key_is_max [OF assms, of s2n item] unfolding f s .
  then obtain m where m: "getProp first primaryKey = VNum (Fin m)"
    by blast
  have gone: "first \<notin> set items"
  proof
    assume "first \<in> set items"
    with create_key_fresh [OF assms, of s2n item]
    have "\<not> strict_eq (getProp first primaryKey) (getProp first primaryKey)"
      unfolding s by blast
    then show False
      by (simp add: m strict_eq_def)
  qed
  have "getProp (snd (create s2n items primaryKey item')) primaryKey =
      getProp (snd (create s2n items primaryKey item)) primaryKey"
    by (simp add: create_key_value [OF assms])
  then have again: "getProp (snd (create s2n items primaryKey item')) primaryKey =
      getProp first primaryKey"
    unfolding s .
  show ?thesis
    using d mx gone again by (simp add: c)
qed

theorem deleted_id_is_reused_witness:
  "safe_keys ''id''
     [[''id'' \<mapsto> VNum (Fin 1)], [''id'' \<mapsto> VNum (Fin 2)], [''id'' \<mapsto> VNum (Fin 3)]] \<and>
   getProp (snd (create (\<lambda>_. NaN)
       (fst (delete
          (fst (create (\<lambda>_. NaN)
             [[''id'' \<mapsto> VNum (Fin 1)], [''id'' \<mapsto> VNum (Fin 2)], [''id'' \<mapsto> VNum (Fin 3)]]
             ''id'' [''name'' \<mapsto> VStr ''d'']))
          ''id''
          (getProp (snd (create (\<lambda>_. NaN)
             [[''id'' \<mapsto> VNum (Fin 1)], [''id'' \<mapsto> VNum (Fin 2)], [''id'' \<mapsto> VNum (Fin 3)]]
             ''id'' [''name'' \<mapsto> VStr ''d''])) ''id'')))
       ''id'' [''name'' \<mapsto> VStr ''e''])) ''id'' =
   getProp (snd (create (\<lambda>_. NaN)
       [[''id'' \<mapsto> VNum (Fin 1)], [''id'' \<mapsto> VNum (Fin 2)], [''id'' \<mapsto> VNum (Fin 3)]]
       ''id'' [''name'' \<mapsto> VStr ''d''])) ''id''"
proof -
  have h: "safe_keys ''id''
     [[''id'' \<mapsto> VNum (Fin 1)], [''id'' \<mapsto> VNum (Fin 2)], [''id'' \<mapsto> VNum (Fin 3)]]"
    by (simp add: safe_keys_def getProp_def)
  show ?thesis
    using h deleted_id_is_reused [OF h, where ?s2n = "\<lambda>_. NaN"
        and ?item = "[''name'' \<mapsto> VStr ''d'']" and ?item' = "[''name'' \<mapsto> VStr ''e'']"]
    unfolding case_prod_beta by blast
qed

text \<open>
  Claim C10. \<open>update\<close> does not protect the primary key. When some record matches \<open>id\<close>
  and the partial fields hold the value \<open>v\<close> under the primary-key field, the record stored
  in place of the first match has primary key \<open>v\<close>; if \<open>v\<close> is not strictly equal to \<open>id\<close>
  and no other record has key \<open>id\<close>, a following \<open>getById(id)\<close> returns absence.
\<close>

theorem update_overwrites_primary_key:
  assumes "\<exists>r \<in> set items. strict_eq (getProp r primaryKey) ident"
    and "updates primaryKey = Some v"
  shows "\<exists>i < length items. \<exists>merged.
           strict_eq (getProp (items ! i) primaryKey) ident \<and>
           (\<forall>j < i. \<not> strict_eq (getProp (items ! j) primaryKey) ident) \<and>
           update items primaryKey ident updates = (items[i := merged], Some merged) \<and>
           getProp merged primaryKey = v \<and>
           (\<not> strict_eq v ident \<and>
            (\<forall>j < length items. j \<noteq> i \<longrightarrow> \<not> strict_eq (getProp (items ! j) primaryKey) ident) \<longrightarrow>
              getById (fst (update items primaryKey ident updates)) primaryKey ident = None)"
proof -
  obtain i where i: "findIndex (\<lambda>item. strict_eq (getProp item primaryKey) ident) items = Some i"
    using findIndex_exists [OF assms(1)] by blast
  note first = findIndex_Some [OF i]
  note upd = update_found [OF i, of updates]
  let ?merged = "items ! i ++ updates"
  have key: "getProp ?merged primaryKey = v"
    using assms(2) by (simp add: getProp_map_add)
  have gone: "getById (fst (update items primaryKey ident updates)) primaryKey ident = None"
    if differs: "\<not> strict_eq v ident"
      and others: "\<forall>j < length items. j \<noteq> i \<longrightarrow> \<not> strict_eq (getProp (items ! j) primaryKey) ident"
  proof -
    have "\<not> strict_eq (getProp r primaryKey) ident" if r: "r \<in> set (items[i := ?merged])" for r
    proof -
      from r obtain j where j: "j < length items" "items[i := ?merged] ! j = r"
        by (auto simp: in_set_conv_nth)
      show ?thesis
      proof (cases "j = i")
        case True
        with j first have "r = ?merged" by simp
        with key differs show ?thesis by simp
      next
        case False
        with j have "r = items ! j" by simp
        with False j others show ?thesis by simp
      qed
    qed
    then show ?thesis
      by (simp add: upd getById_def find_None_iff)
  qed
  show ?thesis
    using first upd key gone by blast
qed

theorem update_overwrites_primary_key_witness:
  "strict_eq (getProp [''id'' \<mapsto> VNum (Fin 1)] ''id'') (VNum (Fin 1)) \<and>
   [''id'' \<mapsto> VNum (Fin 9)] ''id'' = Some (VNum (Fin 9)) \<and>
   \<not> strict_eq (VNum (Fin 9)) (VNum (Fin 1)) \<and>
   \<not> strict_eq (getProp [''id'' \<mapsto> VNum (Fin 2)] ''id'') (VNum (Fin 1)) \<and>
   getById (fst (update [[''id'' \<mapsto> VNum (Fin 1)], [''id'' \<mapsto> VNum (Fin 2)]] ''id''
                   (VNum (Fin 1)) [''id'' \<mapsto> VNum (Fin 9)])) ''id'' (VNum (Fin 1)) = None"
proof -
  let ?items = "[[''id'' \<mapsto> VNum (Fin 1)], [''id'' \<mapsto> VNum (Fin 2)]]"
  let ?u = "[''id'' \<mapsto> VNum (Fin 9)]"
  have m: "strict_eq (getProp [''id'' \<mapsto> VNum (Fin 1)] ''id'') (VNum (Fin 1))"
    and v: "?u ''id'' = Some (VNum (Fin 9))"
    and d: "\<not> strict_eq (VNum (Fin 9)) (VNum (Fin 1))"
    and o: "\<not> strict_eq (getProp [''id'' \<mapsto> VNum (Fin 2)] ''id'') (VNum (Fin 1))"
    by (simp_all add: getProp_def strict_eq_def)
  from m have h: "\<exists>r \<in> set ?items. strict_eq (getProp r ''id'') (VNum (Fin 1))"
    by simp
  from update_overwrites_primary_key
    [of ?items "''id''" "VNum (Fin 1)" ?u "VNum (Fin 9)", OF h v] obtain i where
    i: "i < length ?items" "\<forall>j < i. \<not> strict_eq (getProp (?items ! j) ''id'') (VNum (Fin 1))"
    and gone: "\<not> strict_eq (VNum (Fin 9)) (VNum (Fin 1)) \<and>
        (\<forall>j < length ?items. j \<noteq> i \<longrightarrow> \<not> strict_eq (getProp (?items ! j) ''id'') (VNum (Fin 1))) \<longrightarrow>
        getById (fst (update ?items ''id'' (VNum (Fin 1)) ?u)) ''id'' (VNum (Fin 1)) = None"
    by blast
  have i0: "i = 0"
  proof (rule ccontr)
    assume "i \<noteq> 0"
    then have "0 < i" by simp
    with i(2) m show False by auto
  qed
  have "\<forall>j < length ?items. j \<noteq> i \<longrightarrow> \<not> strict_eq (getProp (?items ! j) ''id'') (VNum (Fin 1))"
    using o by (auto simp: i0 less_Suc_eq)
  with gone d have "getById (fst (update ?items ''id'' (VNum (Fin 1)) ?u)) ''id'' (VNum (Fin 1)) = None"
    by blast
  with m v d o show ?thesis
    by blast
qed

end
